theory Spec2Isabelle
  imports Complex_Main "HOL-Library.Multiset"
begin

section \<open>Data model of \<open>server/src/utils/plagiarism.ts\<close>\<close>

text \<open>
  Conventions of the embedding.
  \<^item> A JavaScript \<open>number\<close> is read as the real number it denotes; \<open>NaN\<close> and the
    infinities are outside the model. Term counts are whole numbers, on which the
    sums and products of the code are exact.
  \<^item> A string is a list of code units below 256 (\<open>char\<close>); \<open>toLowerCase\<close>, the class
    \<open>\s\<close> and \<open>trim\<close> are the ECMAScript ones restricted to that range.
  \<^item> \<open>string | undefined\<close> is \<open>string option\<close>; the test \<open>!x\<close> on such a value holds
    for \<open>undefined\<close> and for the empty string.
  \<^item> A \<open>Map<string, number>\<close> is the list of its entries in insertion order, with
    pairwise different keys.
  \<^item> An exception is the left summand of the result.
\<close>

datatype category = Cat_none | Cat_low | Cat_medium | Cat_high

text \<open>
  \<open>mongoose.Types.ObjectId\<close>: twelve bytes, kept as their 24 lower-case hexadecimal
  digits. A peer's \<open>_id\<close> is such a value or a string.
\<close>

datatype objectid = ObjectId string

datatype peer_id = Oid objectid | Str string

datatype error = BSONError

record MatchResult =
  submissionId :: objectid
  score :: real

record SimilarityReport =
  score :: real
  category :: category
  matches :: "MatchResult list"
  contentHash :: "string option"
  normalizedText :: "string option"
  extractedText :: "string option"

text \<open>The field \<open>_id\<close> of a peer is \<open>ident\<close> here.\<close>

record ExistingSubmission =
  ident :: peer_id
  normalizedText :: "string option"
  contentHash :: "string option"

section \<open>Severity buckets\<close>

definition CATEGORY_THRESHOLDS :: "category \<Rightarrow> real" where
  "CATEGORY_THRESHOLDS c =
     (case c of Cat_none \<Rightarrow> 0 | Cat_low \<Rightarrow> 4 / 10 | Cat_medium \<Rightarrow> 6 / 10 | Cat_high \<Rightarrow> 8 / 10)"

definition bucketScore :: "real \<Rightarrow> category" where
  "bucketScore s =
     (if s \<ge> CATEGORY_THRESHOLDS Cat_high then Cat_high
      else if s \<ge> CATEGORY_THRESHOLDS Cat_medium then Cat_medium
      else if s \<ge> CATEGORY_THRESHOLDS Cat_low then Cat_low
      else Cat_none)"

text \<open>The order of the buckets, \<open>none < low < medium < high\<close>, as a rank.\<close>

fun severity :: "category \<Rightarrow> nat" where
  "severity Cat_none = 0"
| "severity Cat_low = 1"
| "severity Cat_medium = 2"
| "severity Cat_high = 3"

section \<open>Normalizer\<close>

definition isWhiteSpace :: "char \<Rightarrow> bool" where
  \<comment> \<open>the class \<open>\s\<close>: TAB, LF, VT, FF, CR, SP, NBSP\<close>
  "isWhiteSpace c = (of_char c \<in> {9, 10, 11, 12, 13, 32, 160 :: nat})"

definition isLowerAlnum :: "char \<Rightarrow> bool" where
  \<comment> \<open>the class \<open>[a-z0-9]\<close>\<close>
  "isLowerAlnum c =
     (let n = of_char c :: nat in (97 \<le> n \<and> n \<le> 122) \<or> (48 \<le> n \<and> n \<le> 57))"

definition toLowerCaseChar :: "char \<Rightarrow> char" where
  \<comment> \<open>\<open>A-Z\<close> and the upper-case letters of U+00C0..U+00DE (not the sign U+00D7)\<close>
  "toLowerCaseChar c =
     (let n = of_char c :: nat in
      if (65 \<le> n \<and> n \<le> 90) \<or> (192 \<le> n \<and> n \<le> 222 \<and> n \<noteq> 215)
      then char_of (n + 32) else c)"

definition toLowerCase :: "string \<Rightarrow> string" where
  "toLowerCase s = map toLowerCaseChar s"

text \<open>
  \<open>s.replace(/C+/g, ' ')\<close> for a character class \<open>C\<close>: every maximal run of
  characters of the class becomes one space.
\<close>

function replaceRuns :: "(char \<Rightarrow> bool) \<Rightarrow> string \<Rightarrow> string" where
  "replaceRuns C [] = []"
| "replaceRuns C (c # cs) =
     (if C c then CHR '' '' # replaceRuns C (dropWhile C cs) else c # replaceRuns C cs)"
  by pat_completeness auto
termination
  by (relation "measure (\<lambda>(C, s). length s)") (auto simp: less_Suc_eq_le length_dropWhile_le)

definition trim :: "string \<Rightarrow> string" where
  "trim s = rev (dropWhile isWhiteSpace (rev (dropWhile isWhiteSpace s)))"

definition normalizeText :: "string option \<Rightarrow> string option" where
  "normalizeText input =
     (case input of
        None \<Rightarrow> None
      | Some s \<Rightarrow>
          if s = [] then None
          else
            let normalized =
              trim (replaceRuns isWhiteSpace
                (replaceRuns (\<lambda>c. \<not> (isLowerAlnum c \<or> isWhiteSpace c))
                  (toLowerCase s)))
            in if length normalized > 0 then Some normalized else None)"

section \<open>Vectorizer and similarity\<close>

type_synonym vector = "(string \<times> real) list"

definition mapGet :: "vector \<Rightarrow> string \<Rightarrow> real option" where
  "mapGet m k = map_of m k"

fun mapSet :: "vector \<Rightarrow> string \<Rightarrow> real \<Rightarrow> vector" where
  "mapSet [] k v = [(k, v)]"
| "mapSet ((k', v') # m) k v = (if k' = k then (k, v) # m else (k', v') # mapSet m k v)"

text \<open>\<open>s.split(d)\<close> for a one-character separator.\<close>

fun splitOn :: "char \<Rightarrow> string \<Rightarrow> string list" where
  "splitOn d [] = [[]]"
| "splitOn d (c # cs) =
     (if c = d then [] # splitOn d cs
      else (case splitOn d cs of [] \<Rightarrow> [[c]] | t # ts \<Rightarrow> (c # t) # ts))"

text \<open>The loop of \<open>buildVector\<close> over the tokens, with the map built so far.\<close>

fun countTokens :: "string list \<Rightarrow> vector \<Rightarrow> vector" where
  "countTokens [] vector = vector"
| "countTokens (token # rest) vector =
     (if token = [] then countTokens rest vector
      else countTokens rest
        (mapSet vector token ((case mapGet vector token of None \<Rightarrow> 0 | Some n \<Rightarrow> n) + 1)))"

definition buildVector :: "string option \<Rightarrow> vector" where
  "buildVector normalized =
     (case normalized of
        None \<Rightarrow> []
      | Some s \<Rightarrow> if s = [] then [] else countTokens (splitOn CHR '' '' s) [])"

definition magnitude :: "vector \<Rightarrow> real" where
  \<comment> \<open>the loops \<open>magnitudeA += value * value\<close>\<close>
  "magnitude a = foldl (\<lambda>m (token, v). m + v * v) 0 a"

definition dotProduct :: "vector \<Rightarrow> vector \<Rightarrow> real" where
  \<comment> \<open>the loop over \<open>smaller.entries()\<close>\<close>
  "dotProduct smaller larger =
     foldl (\<lambda>dot (token, weight).
        (case mapGet larger token of
           None \<Rightarrow> dot
         | Some otherWeight \<Rightarrow> if otherWeight \<noteq> 0 then dot + weight * otherWeight else dot))
       0 smaller"

definition cosineSimilarity :: "vector \<Rightarrow> vector \<Rightarrow> real" where
  "cosineSimilarity a b =
     (if length a = 0 \<or> length b = 0 then 0
      else
        let magnitudeA = magnitude a;
            magnitudeB = magnitude b;
            denom = sqrt magnitudeA * sqrt magnitudeB
        in if denom = 0 then 0
           else
             let smaller = (if length a < length b then a else b);
                 larger = (if length a < length b then b else a);
                 dot = dotProduct smaller larger
             in min 1 (max 0 (dot / denom)))"

section \<open>Fingerprinter\<close>

text \<open>
  \<open>createContentHash\<close>, over the digest \<open>sha256\<close> of the \<open>crypto\<close> module (hexadecimal
  output), which is a parameter here.
\<close>

definition createContentHash :: "(string \<Rightarrow> string) \<Rightarrow> string option \<Rightarrow> string option" where
  "createContentHash sha256 normalized =
     (case normalized of
        None \<Rightarrow> None
      | Some s \<Rightarrow> if s = [] then None else Some (sha256 s))"

section \<open>Report builder\<close>

definition isHexDigit :: "char \<Rightarrow> bool" where
  "isHexDigit c =
     (let n = of_char c :: nat in
      (48 \<le> n \<and> n \<le> 57) \<or> (65 \<le> n \<and> n \<le> 70) \<or> (97 \<le> n \<and> n \<le> 102))"

text \<open>
  The constructor \<open>new mongoose.Types.ObjectId(value)\<close> on a string: it accepts a string
  of 24 hexadecimal digits and throws on any other.
\<close>

definition newObjectId :: "string \<Rightarrow> error + objectid" where
  "newObjectId s =
     (if length s = 24 \<and> list_all isHexDigit s then Inr (ObjectId (toLowerCase s))
      else Inl BSONError)"

definition toObjectId :: "peer_id \<Rightarrow> error + objectid" where
  "toObjectId v = (case v of Str s \<Rightarrow> newObjectId s | Oid oid \<Rightarrow> Inr oid)"

text \<open>
  \<open>Number(score.toFixed(4))\<close>: the multiple of \<open>1/10000\<close> nearest to the score, the
  larger one of two equally near; \<open>toFixed\<close> treats a negative number through its
  absolute value.
\<close>

definition toFixed4 :: "real \<Rightarrow> real" where
  "toFixed4 x =
     (if x < 0 then - (real_of_int \<lfloor>(- x) * 10000 + 1 / 2\<rfloor> / 10000)
      else real_of_int \<lfloor>x * 10000 + 1 / 2\<rfloor> / 10000)"

text \<open>The truth value of a \<open>string | undefined\<close> in a condition.\<close>

definition truthy :: "string option \<Rightarrow> bool" where
  "truthy x = (case x of None \<Rightarrow> False | Some s \<Rightarrow> s \<noteq> [])"

text \<open>The score that one pass of the loop over the peers gives a peer.\<close>

definition peerScore :: "vector \<Rightarrow> string option \<Rightarrow> ExistingSubmission \<Rightarrow> real" where
  "peerScore vector chash peer =
     (if truthy chash \<and> truthy (ExistingSubmission.contentHash peer)
         \<and> chash = ExistingSubmission.contentHash peer
      then 1
      else if truthy (ExistingSubmission.normalizedText peer)
      then cosineSimilarity vector (buildVector (ExistingSubmission.normalizedText peer))
      else 0)"

text \<open>The loop over the peers, with the matches pushed so far.\<close>

fun scorePeers ::
  "vector \<Rightarrow> string option \<Rightarrow> ExistingSubmission list \<Rightarrow> MatchResult list
   \<Rightarrow> error + MatchResult list" where
  "scorePeers vector chash [] pushed = Inr pushed"
| "scorePeers vector chash (peer # peers) pushed =
     (let s = peerScore vector chash peer in
      if s > 0 then
        (case toObjectId (ident peer) of
           Inl e \<Rightarrow> Inl e
         | Inr oid \<Rightarrow>
             scorePeers vector chash peers
               (pushed @ [\<lparr>submissionId = oid, score = toFixed4 s\<rparr>]))
      else scorePeers vector chash peers pushed)"

text \<open>
  \<open>matches.sort((a, b) => b.score - a.score)\<close>: the stable sort by descending score.
\<close>

definition sortMatches :: "MatchResult list \<Rightarrow> MatchResult list" where
  "sortMatches ms = sort_key (\<lambda>m. - MatchResult.score m) ms"

definition buildSimilarityReport ::
  "string option \<Rightarrow> string option \<Rightarrow> ExistingSubmission list \<Rightarrow> error + SimilarityReport" where
  "buildSimilarityReport ntext chash peers =
     (if \<not> truthy ntext then
        Inr \<lparr>score = 0, category = Cat_none, matches = [],
             contentHash = chash, normalizedText = ntext, extractedText = None\<rparr>
      else
        let vector = buildVector ntext in
        (case scorePeers vector chash peers [] of
           Inl e \<Rightarrow> Inl e
         | Inr pushed \<Rightarrow>
             let sorted_matches = sortMatches pushed;
                 topScore = (case sorted_matches of [] \<Rightarrow> 0 | m # _ \<Rightarrow> MatchResult.score m)
             in Inr \<lparr>score = topScore, category = bucketScore topScore,
                     matches = sorted_matches,
                     contentHash = chash, normalizedText = ntext, extractedText = None\<rparr>))"

section \<open>Severity buckets: thresholds and monotonicity\<close>

text \<open>
  C1: \<open>bucketScore s\<close> is \<open>high\<close> exactly for \<open>s \<ge> 0.8\<close>, \<open>medium\<close> exactly for
  \<open>0.6 \<le> s < 0.8\<close>, \<open>low\<close> exactly for \<open>0.4 \<le> s < 0.6\<close> and \<open>none\<close> exactly for
  \<open>s < 0.4\<close>; at the boundaries, 0.79 is medium, 0.8 high, 0.59 low, 0.6 medium,
  0.39 none and 0.4 low.
\<close>

theorem bucketScore_thresholds:
  "(bucketScore s = Cat_high \<longleftrightarrow> 0.8 \<le> s)
   \<and> (bucketScore s = Cat_medium \<longleftrightarrow> 0.6 \<le> s \<and> s < 0.8)
   \<and> (bucketScore s = Cat_low \<longleftrightarrow> 0.4 \<le> s \<and> s < 0.6)
   \<and> (bucketScore s = Cat_none \<longleftrightarrow> s < 0.4)
   \<and> bucketScore 0.79 = Cat_medium \<and> bucketScore 0.8 = Cat_high
   \<and> bucketScore 0.59 = Cat_low \<and> bucketScore 0.6 = Cat_medium
   \<and> bucketScore 0.39 = Cat_none \<and> bucketScore 0.4 = Cat_low"
  by (simp add: bucketScore_def CATEGORY_THRESHOLDS_def)

text \<open>
  C9: \<open>bucketScore\<close> is monotone for the order \<open>none < low < medium < high\<close>: a score
  that is not smaller never gets a lower bucket.
\<close>

theorem bucketScore_mono:
  "s1 \<le> s2 \<Longrightarrow> severity (bucketScore s1) \<le> severity (bucketScore s2)"
  by (simp add: bucketScore_def CATEGORY_THRESHOLDS_def)

theorem bucketScore_mono_witness:
  "(0.5 :: real) \<le> 0.7 \<and> severity (bucketScore 0.5) = 1 \<and> severity (bucketScore 0.7) = 2
   \<and> severity (bucketScore 0.5) \<le> severity (bucketScore 0.7)"
  using bucketScore_mono [of "0.5" "0.7"]
  by (simp add: bucketScore_def CATEGORY_THRESHOLDS_def)

section \<open>Normalizer: the shape of a result and idempotence\<close>

lemma set_replaceRuns:
  "c \<in> set (replaceRuns C s) \<Longrightarrow> c = CHR '' '' \<or> (c \<in> set s \<and> \<not> C c)"
proof (induction C s rule: replaceRuns.induct)
  case (1 C)
  then show ?case by simp
next
  case (2 C d ds)
  show ?case
  proof (cases "C d")
    case True
    with "2.prems" have "c = CHR '' '' \<or> c \<in> set (replaceRuns C (dropWhile C ds))" by simp
    then show ?thesis
    proof
      assume "c = CHR '' ''" then show ?thesis by simp
    next
      assume "c \<in> set (replaceRuns C (dropWhile C ds))"
      from "2.IH"(1) [OF True this] show ?thesis
        by (auto dest: set_dropWhileD)
    qed
  next
    case False
    with "2.prems" have "c = d \<or> c \<in> set (replaceRuns C ds)" by simp
    then show ?thesis
    proof
      assume "c = d" with False show ?thesis by simp
    next
      assume "c \<in> set (replaceRuns C ds)"
      from "2.IH"(2) [OF False this] show ?thesis by auto
    qed
  qed
qed

lemma replaceRuns_no_match: "\<forall>c \<in> set s. \<not> C c \<Longrightarrow> replaceRuns C s = s"
  by (induction s) simp_all

lemma replaceRuns_hd:
  "s \<noteq> [] \<Longrightarrow> \<not> C (hd s) \<Longrightarrow> replaceRuns C s \<noteq> [] \<and> hd (replaceRuns C s) = hd s"
  by (cases s) simp_all

lemma replaceRuns_single_spaced:
  "successively (\<lambda>a b. \<not> (C a \<and> C b)) (replaceRuns C s)"
proof (induction C s rule: replaceRuns.induct)
  case (1 C)
  then show ?case by simp
next
  case (2 C d ds)
  show ?case
  proof (cases "C d")
    case True
    note IH = "2.IH"(1) [OF True]
    show ?thesis
    proof (cases "dropWhile C ds = []")
      case True
      then have "replaceRuns C (dropWhile C ds) = []" by (simp only: replaceRuns.simps)
      with \<open>C d\<close> show ?thesis by simp
    next
      case False
      then have "\<not> C (hd (dropWhile C ds))" by (rule hd_dropWhile)
      with False have "replaceRuns C (dropWhile C ds) \<noteq> []"
        and "hd (replaceRuns C (dropWhile C ds)) = hd (dropWhile C ds)"
        using replaceRuns_hd [of "dropWhile C ds" C] by simp_all
      with \<open>\<not> C (hd (dropWhile C ds))\<close> IH \<open>C d\<close> show ?thesis
        by (simp add: successively_Cons)
    qed
  next
    case False
    with "2.IH"(2) [OF False] show ?thesis by (simp add: successively_Cons)
  qed
qed

lemma replaceRuns_fixed:
  "successively (\<lambda>a b. \<not> (C a \<and> C b)) s \<Longrightarrow> \<forall>c \<in> set s. C c \<longrightarrow> c = CHR '' ''
   \<Longrightarrow> replaceRuns C s = s"
proof (induction C s rule: replaceRuns.induct)
  case (1 C)
  then show ?case by simp
next
  case (2 C d ds)
  from "2.prems"(1) have tl: "successively (\<lambda>a b. \<not> (C a \<and> C b)) ds"
    by (auto simp: successively_Cons)
  show ?case
  proof (cases "C d")
    case True
    with "2.prems"(2) have d: "d = CHR '' ''" by simp
    from "2.prems"(1) True have "ds = [] \<or> \<not> C (hd ds)" by (auto simp: successively_Cons)
    then have dw: "dropWhile C ds = ds" by (simp add: dropWhile_eq_self_iff)
    from "2.IH"(1) [OF True] tl "2.prems"(2) dw have "replaceRuns C ds = ds" by simp
    with True d dw show ?thesis by simp
  next
    case False
    from "2.IH"(2) [OF False tl] "2.prems"(2) have "replaceRuns C ds = ds" by simp
    with False show ?thesis by simp
  qed
qed

lemma rev_dropWhile_takeWhile:
  "u = rev (dropWhile P (rev u)) @ rev (takeWhile P (rev u))"
  by (metis rev_append rev_rev_ident takeWhile_dropWhile_id)

lemma trim_decompose:
  "\<exists>pre post. s = pre @ trim s @ post"
proof -
  let ?u = "dropWhile isWhiteSpace s"
  have "s = takeWhile isWhiteSpace s @ ?u" by simp
  moreover have "?u = trim s @ rev (takeWhile isWhiteSpace (rev ?u))"
    unfolding trim_def by (rule rev_dropWhile_takeWhile)
  ultimately have "s = takeWhile isWhiteSpace s @ trim s @ rev (takeWhile isWhiteSpace (rev ?u))"
    by simp
  then show ?thesis by blast
qed

lemma trim_set: "set (trim s) \<subseteq> set s"
proof -
  obtain pre post where "s = pre @ trim s @ post" using trim_decompose by blast
  then have "set s = set pre \<union> set (trim s) \<union> set post" by (metis set_append sup_assoc)
  then show ?thesis by blast
qed

lemma trim_successively: "successively P s \<Longrightarrow> successively P (trim s)"
proof -
  assume a: "successively P s"
  obtain pre post where "s = pre @ trim s @ post" using trim_decompose by blast
  with a have "successively P (pre @ trim s @ post)" by simp
  then show ?thesis by (simp add: successively_append_iff)
qed

lemma trim_ends:
  assumes "trim s \<noteq> []"
  shows "\<not> isWhiteSpace (hd (trim s)) \<and> \<not> isWhiteSpace (last (trim s))"
proof -
  let ?u = "dropWhile isWhiteSpace s"
  from assms have ne: "dropWhile isWhiteSpace (rev ?u) \<noteq> []" by (simp add: trim_def)
  then have "\<not> isWhiteSpace (hd (dropWhile isWhiteSpace (rev ?u)))" by (rule hd_dropWhile)
  then have l: "\<not> isWhiteSpace (last (trim s))"
    using ne by (simp add: trim_def last_rev)
  have dec: "?u = trim s @ rev (takeWhile isWhiteSpace (rev ?u))"
    unfolding trim_def by (rule rev_dropWhile_takeWhile)
  with assms have "?u \<noteq> []" by (metis append_is_Nil_conv)
  then have "\<not> isWhiteSpace (hd ?u)" by (rule hd_dropWhile)
  moreover from dec assms have "hd ?u = hd (trim s)" by (metis hd_append2)
  ultimately show ?thesis using l by simp
qed

lemma trim_fixed:
  assumes "s \<noteq> []" "\<not> isWhiteSpace (hd s)" "\<not> isWhiteSpace (last s)"
  shows "trim s = s"
proof -
  have "dropWhile isWhiteSpace s = s" using assms by (simp add: dropWhile_eq_self_iff)
  moreover have "dropWhile isWhiteSpace (rev s) = rev s"
    using assms by (simp add: dropWhile_eq_self_iff hd_rev)
  ultimately show ?thesis by (simp add: trim_def)
qed

lemma space_is_white: "isWhiteSpace CHR '' ''"
  by (simp add: isWhiteSpace_def)

lemma alnum_not_white: "isLowerAlnum c \<Longrightarrow> \<not> isWhiteSpace c"
  by (auto simp: isLowerAlnum_def isWhiteSpace_def Let_def)

lemma toLowerCaseChar_alnum: "isLowerAlnum c \<Longrightarrow> toLowerCaseChar c = c"
  by (auto simp: isLowerAlnum_def toLowerCaseChar_def Let_def)

lemma toLowerCaseChar_space: "toLowerCaseChar CHR '' '' = CHR '' ''"
  by (simp add: toLowerCaseChar_def)

text \<open>The shape of every result of the normalizer.\<close>

lemma normalizeText_shape:
  assumes "normalizeText x = Some y"
  shows "y \<noteq> [] \<and> (\<forall>c \<in> set y. isLowerAlnum c \<or> c = CHR '' '')
       \<and> successively (\<lambda>a b. \<not> (isWhiteSpace a \<and> isWhiteSpace b)) y
       \<and> \<not> isWhiteSpace (hd y) \<and> \<not> isWhiteSpace (last y)"
proof -
  from assms obtain s where x: "x = Some s" and s: "s \<noteq> []"
    by (auto simp: normalizeText_def split: option.splits if_splits)
  define z where "z = replaceRuns (\<lambda>c. \<not> (isLowerAlnum c \<or> isWhiteSpace c)) (toLowerCase s)"
  define w where "w = replaceRuns isWhiteSpace z"
  from assms x s have y: "y = trim w" and ne: "y \<noteq> []"
    by (auto simp: normalizeText_def Let_def w_def z_def split: if_splits)
  have zc: "\<forall>c \<in> set z. isLowerAlnum c \<or> isWhiteSpace c"
    unfolding z_def using set_replaceRuns space_is_white by blast
  have wc: "\<forall>c \<in> set w. isLowerAlnum c \<or> c = CHR '' ''"
    unfolding w_def using set_replaceRuns zc by blast
  have ws: "successively (\<lambda>a b. \<not> (isWhiteSpace a \<and> isWhiteSpace b)) w"
    unfolding w_def by (rule replaceRuns_single_spaced)
  from wc trim_set have "\<forall>c \<in> set y. isLowerAlnum c \<or> c = CHR '' ''"
    unfolding y by blast
  moreover from ws have "successively (\<lambda>a b. \<not> (isWhiteSpace a \<and> isWhiteSpace b)) y"
    unfolding y by (rule trim_successively)
  moreover from ne have "\<not> isWhiteSpace (hd y) \<and> \<not> isWhiteSpace (last y)"
    unfolding y by (rule trim_ends)
  ultimately show ?thesis using ne by simp
qed

lemma normalizeText_fixed:
  assumes "y \<noteq> []" "\<forall>c \<in> set y. isLowerAlnum c \<or> c = CHR '' ''"
    "successively (\<lambda>a b. \<not> (isWhiteSpace a \<and> isWhiteSpace b)) y"
    "\<not> isWhiteSpace (hd y)" "\<not> isWhiteSpace (last y)"
  shows "normalizeText (Some y) = Some y"
proof -
  have low: "toLowerCase y = y"
    unfolding toLowerCase_def
    using assms(2) toLowerCaseChar_alnum toLowerCaseChar_space by (intro map_idI) auto
  have r1: "replaceRuns (\<lambda>c. \<not> (isLowerAlnum c \<or> isWhiteSpace c)) y = y"
    using assms(2) space_is_white by (intro replaceRuns_no_match) auto
  have r2: "replaceRuns isWhiteSpace y = y"
    using assms(2,3) alnum_not_white by (intro replaceRuns_fixed) auto
  have t: "trim y = y" using assms(1,4,5) by (rule trim_fixed)
  have r1': "replaceRuns (\<lambda>c. \<not> isLowerAlnum c \<and> \<not> isWhiteSpace c) y = y"
    using r1 by simp
  show ?thesis using assms(1) by (simp add: normalizeText_def low r1' r2 t)
qed

lemma normalize_blank: "normalizeText (Some ''   '') = None"
  by code_simp

lemma normalize_hi_world: "normalizeText (Some ''Hi, World!!'') = Some ''hi world''"
  by code_simp

text \<open>
  C7: \<open>normalizeText\<close> is idempotent: a result \<open>y\<close> that is not absent is
  normalized to itself. Absent input gives an absent result, so does \<open>"   "\<close>;
  \<open>"Hi, World!!"\<close> gives \<open>"hi world"\<close>; the result is never the empty string.
\<close>

theorem normalizeText_idempotent:
  "(normalizeText x = Some y \<longrightarrow> normalizeText (Some y) = Some y)
   \<and> normalizeText None = None
   \<and> normalizeText (Some ''   '') = None
   \<and> normalizeText (Some ''Hi, World!!'') = Some ''hi world''
   \<and> normalizeText x \<noteq> Some []"
proof -
  have "normalizeText x = Some y \<longrightarrow> normalizeText (Some y) = Some y"
  proof
    assume "normalizeText x = Some y"
    from normalizeText_shape [OF this] show "normalizeText (Some y) = Some y"
      by (intro normalizeText_fixed) simp_all
  qed
  moreover have "normalizeText None = None" by (simp add: normalizeText_def)
  moreover have "normalizeText x \<noteq> Some []"
    using normalizeText_shape [of x "[]"] by blast
  ultimately show ?thesis using normalize_blank normalize_hi_world by simp
qed

text \<open>
  The idempotence at \<open>"Hi, World!!"\<close>.
\<close>

theorem normalizeText_idempotent_witness:
  "normalizeText (Some ''Hi, World!!'') = Some ''hi world''
   \<and> normalizeText (Some ''hi world'') = Some ''hi world''"
  using normalizeText_idempotent [of "Some ''Hi, World!!''" "''hi world''"] by simp

section \<open>Similarity: symmetry of the cosine\<close>

lemma dotProduct_sum_list:
  "foldl (\<lambda>dot (token, weight).
        (case mapGet larger token of
           None \<Rightarrow> dot
         | Some otherWeight \<Rightarrow> if otherWeight \<noteq> 0 then dot + weight * otherWeight else dot))
       z smaller
   = z + sum_list (map (\<lambda>(token, weight).
        (case map_of larger token of None \<Rightarrow> 0 | Some otherWeight \<Rightarrow> weight * otherWeight))
        smaller)"
  by (induction smaller arbitrary: z) (auto simp: mapGet_def split: option.splits)

lemma lookup_as_sum:
  assumes "distinct (map fst b)"
  shows "(case map_of b k of None \<Rightarrow> 0 | Some v \<Rightarrow> w * v)
         = (\<Sum>y \<in> set b. if fst y = k then w * snd y else (0 :: real))"
proof (cases "map_of b k")
  case None
  then have "\<forall>y \<in> set b. fst y \<noteq> k" by (force simp: map_of_eq_None_iff)
  then have "(\<Sum>y \<in> set b. if fst y = k then w * snd y else 0) = (\<Sum>y \<in> set b. 0)"
    by (intro sum.cong) auto
  with None show ?thesis by simp
next
  case (Some v)
  with assms have mem: "(k, v) \<in> set b" by simp
  have "\<And>y. y \<in> set b \<Longrightarrow> (fst y = k) = (y = (k, v))"
    using assms mem by (metis eq_key_imp_eq_value fst_conv prod.collapse)
  then have "(\<Sum>y \<in> set b. if fst y = k then w * snd y else 0)
        = (\<Sum>y \<in> set b. if y = (k, v) then w * snd y else 0)"
    by (intro sum.cong) auto
  also have "\<dots> = w * v" using mem by (simp add: sum.delta)
  finally show ?thesis using Some by simp
qed

lemma dotProduct_double_sum:
  assumes "distinct (map fst a)" "distinct (map fst b)"
  shows "dotProduct a b
         = (\<Sum>x \<in> set a. \<Sum>y \<in> set b. if fst y = fst x then snd x * snd y else 0)"
proof -
  from assms(1) have da: "distinct a" by (rule distinct_map [THEN iffD1, THEN conjunct1])
  have "dotProduct a b
        = sum_list (map (\<lambda>(k, w). (case map_of b k of None \<Rightarrow> 0 | Some v \<Rightarrow> w * v)) a)"
    unfolding dotProduct_def dotProduct_sum_list by simp
  also have "\<dots> = (\<Sum>x \<in> set a. (case x of (k, w) \<Rightarrow>
        (case map_of b k of None \<Rightarrow> 0 | Some v \<Rightarrow> w * v)))"
    using da by (rule sum_list_distinct_conv_sum_set)
  also have "\<dots> = (\<Sum>x \<in> set a. \<Sum>y \<in> set b. if fst y = fst x then snd x * snd y else 0)"
    by (intro sum.cong refl) (auto simp: lookup_as_sum [OF assms(2)] split: prod.splits cong: if_cong)
  finally show ?thesis .
qed

lemma dotProduct_commute:
  assumes "distinct (map fst a)" "distinct (map fst b)"
  shows "dotProduct a b = dotProduct b a"
proof -
  have "dotProduct a b
        = (\<Sum>x \<in> set a. \<Sum>y \<in> set b. if fst y = fst x then snd x * snd y else 0)"
    using assms by (rule dotProduct_double_sum)
  also have "\<dots> = (\<Sum>y \<in> set b. \<Sum>x \<in> set a. if fst y = fst x then snd x * snd y else 0)"
    by (rule sum.swap)
  also have "\<dots> = (\<Sum>y \<in> set b. \<Sum>x \<in> set a. if fst x = fst y then snd y * snd x else 0)"
    by (intro sum.cong refl) (auto simp: mult.commute)
  also have "\<dots> = dotProduct b a"
    using assms(2,1) by (rule dotProduct_double_sum [symmetric])
  finally show ?thesis .
qed

lemma cosineSimilarity_commute:
  assumes "distinct (map fst a)" "distinct (map fst b)"
  shows "cosineSimilarity a b = cosineSimilarity b a"
proof -
  have d: "dotProduct a b = dotProduct b a" using assms by (rule dotProduct_commute)
  have m: "sqrt (magnitude a) * sqrt (magnitude b) = sqrt (magnitude b) * sqrt (magnitude a)"
    by (rule mult.commute)
  consider "length a < length b" | "length b < length a" | "length a = length b"
    by linarith
  then show ?thesis
  proof cases
    case 1
    then show ?thesis unfolding cosineSimilarity_def Let_def m by auto
  next
    case 2
    then show ?thesis unfolding cosineSimilarity_def Let_def m by auto
  next
    case 3
    then show ?thesis unfolding cosineSimilarity_def Let_def m by (simp add: d)
  qed
qed

lemma mapSet_keys:
  "map fst (mapSet m k v) = (if k \<in> fst ` set m then map fst m else map fst m @ [k])"
proof (induction m)
  case Nil
  then show ?case by simp
next
  case (Cons e m)
  obtain k' v' where e: "e = (k', v')" by (cases e)
  show ?case
  proof (cases "k' = k")
    case True
    with e show ?thesis by simp
  next
    case False
    with e Cons.IH show ?thesis by (cases "k \<in> fst ` set m") auto
  qed
qed

lemma countTokens_distinct:
  "distinct (map fst vec) \<Longrightarrow> distinct (map fst (countTokens ts vec))"
  by (induction ts arbitrary: vec) (simp_all add: mapSet_keys)

lemma buildVector_distinct: "distinct (map fst (buildVector x))"
  by (simp add: buildVector_def countTokens_distinct split: option.splits)

text \<open>
  C8: \<open>cosineSimilarity\<close> is symmetric, for every pair of maps (their keys are
  pairwise different) and so for every pair of vectors that \<open>buildVector\<close> builds,
  whichever of the two the loop of the dot product runs over.
\<close>

theorem cosineSimilarity_symmetric:
  "(distinct (map fst a) \<longrightarrow> distinct (map fst b)
      \<longrightarrow> cosineSimilarity a b = cosineSimilarity b a)
   \<and> cosineSimilarity (buildVector x) (buildVector y)
       = cosineSimilarity (buildVector y) (buildVector x)"
  using cosineSimilarity_commute [of a b]
    cosineSimilarity_commute [OF buildVector_distinct buildVector_distinct, of x y]
  by simp

lemma sqrt_25: "sqrt 25 = 5"
  by (rule real_sqrt_unique) simp_all

lemma cosine_ab_b: "cosineSimilarity [(''a'', 3), (''b'', 4)] [(''b'', 1)] = 4 / 5"
  by (simp add: cosineSimilarity_def magnitude_def dotProduct_def mapGet_def sqrt_25)

text \<open>
  The symmetry at \<open>{a: 3, b: 4}\<close> and \<open>{b: 1}\<close>, in both orders \<open>4/5\<close>.
\<close>

theorem cosineSimilarity_symmetric_witness:
  "distinct (map fst [(''a'', 3 :: real), (''b'', 4)]) \<and> distinct (map fst [(''b'', 1 :: real)])
   \<and> cosineSimilarity [(''a'', 3), (''b'', 4)] [(''b'', 1)] = 4 / 5
   \<and> cosineSimilarity [(''b'', 1)] [(''a'', 3), (''b'', 4)] = 4 / 5"
  using cosineSimilarity_symmetric [of "[(''a'', 3), (''b'', 4)]" "[(''b'', 1)]"] cosine_ab_b
  by simp

section \<open>Report builder: the loop over the peers\<close>

lemma cosineSimilarity_range: "0 \<le> cosineSimilarity a b \<and> cosineSimilarity a b \<le> 1"
  by (simp add: cosineSimilarity_def Let_def)

lemma peerScore_range: "0 \<le> peerScore v h p \<and> peerScore v h p \<le> 1"
  using cosineSimilarity_range by (simp add: peerScore_def)

lemma toFixed4_range:
  assumes "0 \<le> x" "x \<le> 1"
  shows "0 \<le> toFixed4 x \<and> toFixed4 x \<le> 1"
proof -
  have "0 \<le> \<lfloor>x * 10000 + 1 / 2\<rfloor>" using assms by simp
  moreover have "\<lfloor>x * 10000 + 1 / 2\<rfloor> \<le> 10000"
  proof -
    have "x * 10000 + 1 / 2 < 10001" using assms by simp
    then have "\<lfloor>x * 10000 + 1 / 2\<rfloor> < 10001" by (simp add: floor_less_iff)
    then show ?thesis by simp
  qed
  ultimately show ?thesis using assms by (simp add: toFixed4_def)
qed

lemma toFixed4_grid: "\<exists>n :: int. toFixed4 x = real_of_int n / 10000"
proof (cases "x < 0")
  case True
  then have "toFixed4 x = real_of_int (- \<lfloor>(- x) * 10000 + 1 / 2\<rfloor>) / 10000"
    by (simp add: toFixed4_def)
  then show ?thesis by blast
next
  case False
  then have "toFixed4 x = real_of_int \<lfloor>x * 10000 + 1 / 2\<rfloor> / 10000"
    by (simp add: toFixed4_def)
  then show ?thesis by blast
qed

lemma scorePeers_entries:
  "scorePeers v h ps acc = Inr ms \<Longrightarrow> m \<in> set ms \<Longrightarrow>
   m \<in> set acc \<or> (\<exists>p \<in> set ps. 0 < peerScore v h p
        \<and> toObjectId (ident p) = Inr (submissionId m)
        \<and> MatchResult.score m = toFixed4 (peerScore v h p))"
proof (induction ps arbitrary: acc)
  case Nil
  then show ?case by simp
next
  case (Cons p ps)
  show ?case
  proof (cases "0 < peerScore v h p")
    case False
    with Cons.prems have "scorePeers v h ps acc = Inr ms" by simp
    from Cons.IH [OF this Cons.prems(2)] show ?thesis by auto
  next
    case True
    with Cons.prems obtain oid where oid: "toObjectId (ident p) = Inr oid"
      and rest: "scorePeers v h ps (acc @ [\<lparr>submissionId = oid, score = toFixed4 (peerScore v h p)\<rparr>]) = Inr ms"
      by (auto simp: Let_def split: sum.splits)
    from Cons.IH [OF rest Cons.prems(2)] True oid show ?thesis by auto
  qed
qed

lemma scorePeers_mset:
  "scorePeers v h ps acc = Inr ms \<Longrightarrow>
   image_mset (\<lambda>m. Inr (submissionId m)) (mset ms)
     \<subseteq># image_mset (\<lambda>m. Inr (submissionId m)) (mset acc)
         + image_mset (\<lambda>p. toObjectId (ident p)) (mset ps)"
proof (induction ps arbitrary: acc)
  case Nil
  then show ?case by simp
next
  case (Cons p ps)
  show ?case
  proof (cases "0 < peerScore v h p")
    case False
    with Cons.prems have "scorePeers v h ps acc = Inr ms" by simp
    from Cons.IH [OF this]
    have "image_mset (\<lambda>m. Inr (submissionId m)) (mset ms)
       \<subseteq># image_mset (\<lambda>m. Inr (submissionId m)) (mset acc)
           + image_mset (\<lambda>p. toObjectId (ident p)) (mset ps)" .
    also have "\<dots> \<subseteq># image_mset (\<lambda>m. Inr (submissionId m)) (mset acc)
           + image_mset (\<lambda>p. toObjectId (ident p)) (mset (p # ps))"
      by simp
    finally show ?thesis .
  next
    case True
    with Cons.prems obtain oid where oid: "toObjectId (ident p) = Inr oid"
      and rest: "scorePeers v h ps (acc @ [\<lparr>submissionId = oid, score = toFixed4 (peerScore v h p)\<rparr>]) = Inr ms"
      by (auto simp: Let_def split: sum.splits)
    from Cons.IH [OF rest] oid show ?thesis by simp
  qed
qed

lemma scorePeers_total:
  "(\<exists>ms. scorePeers v h ps acc = Inr ms)
   \<longleftrightarrow> (\<forall>p \<in> set ps. 0 < peerScore v h p \<longrightarrow> toObjectId (ident p) \<noteq> Inl BSONError)"
proof (induction ps arbitrary: acc)
  case Nil
  then show ?case by simp
next
  case (Cons p ps)
  show ?case
  proof (cases "0 < peerScore v h p")
    case False
    then show ?thesis using Cons.IH [of acc] by simp
  next
    case True
    show ?thesis
    proof (cases "toObjectId (ident p)")
      case (Inl e)
      then have "toObjectId (ident p) = Inl BSONError" by (cases e) simp
      with True show ?thesis by simp
    next
      case (Inr oid)
      with True show ?thesis
        using Cons.IH [of "acc @ [\<lparr>submissionId = oid, score = toFixed4 (peerScore v h p)\<rparr>]"]
        by simp
    qed
  qed
qed

section \<open>Report builder: sorting and the shape of the report\<close>

lemma sortMatches_sorted:
  "sorted_wrt (\<lambda>a b. MatchResult.score b \<le> MatchResult.score a) (sortMatches ms)"
proof -
  have "sorted (map (\<lambda>m. - MatchResult.score m) (sortMatches ms))"
    unfolding sortMatches_def by (rule sorted_sort_key)
  then show ?thesis by (simp add: sorted_map)
qed

lemma sortMatches_mset: "mset (sortMatches ms) = mset ms"
  by (simp add: sortMatches_def)

lemma sortMatches_set: "set (sortMatches ms) = set ms"
  by (simp add: sortMatches_def)

lemma sorted_desc_hd_Max:
  "sorted_wrt (\<lambda>a b. MatchResult.score b \<le> MatchResult.score a) (m # ms)
   \<Longrightarrow> Max (MatchResult.score ` set (m # ms)) = MatchResult.score m"
  by (intro Max_eqI) auto

lemma report_shape:
  "buildSimilarityReport t h ps = Inr r \<Longrightarrow> truthy t \<Longrightarrow>
   \<exists>pushed. scorePeers (buildVector t) h ps [] = Inr pushed
     \<and> matches r = sortMatches pushed
     \<and> SimilarityReport.score r = (case sortMatches pushed of [] \<Rightarrow> 0 | m # _ \<Rightarrow> MatchResult.score m)
     \<and> category r = bucketScore (SimilarityReport.score r)
     \<and> SimilarityReport.contentHash r = h
     \<and> SimilarityReport.normalizedText r = t
     \<and> extractedText r = None"
  by (auto simp: buildSimilarityReport_def Let_def split: sum.splits)

lemma report_short:
  "\<not> truthy t \<Longrightarrow> buildSimilarityReport t h ps =
     Inr \<lparr>score = 0, category = Cat_none, matches = [],
          contentHash = h, normalizedText = t, extractedText = None\<rparr>"
  by (simp add: buildSimilarityReport_def)

section \<open>Report builder: evaluation on concrete inputs\<close>

lemma vector_abcd:
  "buildVector (Some ''a b c d'') = [(''a'', 1), (''b'', 1), (''c'', 1), (''d'', 1)]"
  by (simp add: buildVector_def mapGet_def)

lemma vector_abxy:
  "buildVector (Some ''a b x y'') = [(''a'', 1), (''b'', 1), (''x'', 1), (''y'', 1)]"
  by (simp add: buildVector_def mapGet_def)

lemma cosine_abcd_abxy:
  "cosineSimilarity [(''a'', 1), (''b'', 1), (''c'', 1), (''d'', 1)]
     [(''a'', 1), (''b'', 1), (''x'', 1), (''y'', 1)] = 1 / 2"
  by (simp add: cosineSimilarity_def magnitude_def dotProduct_def mapGet_def)

lemma toFixed4_half: "toFixed4 (1 / 2) = 1 / 2"
  by (simp add: toFixed4_def)

lemma toFixed4_one: "toFixed4 1 = 1"
  by (simp add: toFixed4_def)

text \<open>
  A submission \<open>a b c d\<close> against two peers: one with the text \<open>a b x y\<close> and no hash
  (score 0.5), one with the submission's hash (score 1).
\<close>

lemma two_peers_report:
  "buildSimilarityReport (Some ''a b c d'') (Some ''9f86d081'')
     [\<lparr>ident = Oid (ObjectId ''65a1b2c3d4e5f60718293a4b''),
       normalizedText = Some ''a b x y'', contentHash = None\<rparr>,
      \<lparr>ident = Oid (ObjectId ''65a1b2c3d4e5f60718293a4c''),
       normalizedText = Some ''a b c d'', contentHash = Some ''9f86d081''\<rparr>]
   = Inr \<lparr>score = 1, category = Cat_high,
          matches = [\<lparr>submissionId = ObjectId ''65a1b2c3d4e5f60718293a4c'', score = 1\<rparr>,
                     \<lparr>submissionId = ObjectId ''65a1b2c3d4e5f60718293a4b'', score = 1 / 2\<rparr>],
          contentHash = Some ''9f86d081'', normalizedText = Some ''a b c d'',
          extractedText = None\<rparr>"
  by (simp add: buildSimilarityReport_def truthy_def peerScore_def vector_abcd vector_abxy
      cosine_abcd_abxy toFixed4_half toFixed4_one toObjectId_def sortMatches_def
      bucketScore_def CATEGORY_THRESHOLDS_def Let_def)

lemma normalize_fox: "normalizeText (Some ''The quick brown fox'') = Some ''the quick brown fox''"
  by code_simp

lemma oid_ex: "toObjectId (Str ''65A1B2C3D4E5F60718293A4B'') = Inr (ObjectId ''65a1b2c3d4e5f60718293a4b'')"
  by code_simp

lemma bad_id: "toObjectId (Str ''peer-1'') = Inl BSONError"
  by (simp add: toObjectId_def newObjectId_def)

lemma degenerate_peers_scores:
  "peerScore (buildVector (Some ''a b c d'')) None
     \<lparr>ident = Str ''peer-1'', normalizedText = None, contentHash = None\<rparr> = 0
   \<and> (\<exists>oid. toObjectId (Str ''65A1B2C3D4E5F60718293A4B'') = Inr oid)"
  using oid_ex by (simp add: peerScore_def truthy_def)

lemma splitOn_replicate:
  "c \<noteq> d \<Longrightarrow> splitOn d (concat (replicate n [c, d]) @ s) = replicate n [c] @ splitOn d s"
  by (induction n) simp_all

lemma countTokens_replicate:
  "tok \<noteq> [] \<Longrightarrow>
   countTokens (replicate n tok @ ts) [(tok, k)] = countTokens ts [(tok, k + real n)]"
  by (induction n arbitrary: k) (simp_all add: mapGet_def add.assoc)

lemma buildVector_repeated:
  "c \<noteq> CHR '' '' \<Longrightarrow> e \<noteq> CHR '' '' \<Longrightarrow> e \<noteq> c \<Longrightarrow>
   buildVector (Some (concat (replicate (Suc n) [c, CHR '' '']) @ [e]))
     = [([c], 1 + real n), ([e], 1)]"
proof -
  assume a: "c \<noteq> CHR '' ''" "e \<noteq> CHR '' ''" "e \<noteq> c"
  have "splitOn CHR '' '' (concat (replicate (Suc n) [c, CHR '' '']) @ [e])
        = replicate (Suc n) [c] @ [[e]]"
    using a splitOn_replicate [of c "CHR '' ''" "Suc n" "[e]"] by simp
  then have "buildVector (Some (concat (replicate (Suc n) [c, CHR '' '']) @ [e]))
        = countTokens (replicate (Suc n) [c] @ [[e]]) []"
    by (simp add: buildVector_def)
  also have "\<dots> = countTokens (replicate n [c] @ [[e]]) [([c], 1)]"
    by (simp add: mapGet_def)
  also have "\<dots> = countTokens [[e]] [([c], 1 + real n)]"
    by (rule countTokens_replicate) simp
  also have "\<dots> = [([c], 1 + real n), ([e], 1)]"
    using a by (simp add: mapGet_def)
  finally show ?thesis .
qed

lemma tiny_cosine:
  "cosineSimilarity [(''y'', 150), (''x'', 1)] [(''z'', 150), (''x'', 1)] = 1 / 22501"
  by (simp add: cosineSimilarity_def magnitude_def dotProduct_def mapGet_def)

lemma tiny_rounds_to_zero: "toFixed4 (1 / 22501) = 0"
  by (simp add: toFixed4_def)

section \<open>Report builder: the report for absent text, and the pass-through\<close>

text \<open>
  C4: with absent normalized text, for every hash and every list of peers, the report
  has score 0, category \<open>none\<close>, no matches, and the hash and the text as they were
  given; no peer is looked at.
\<close>

theorem absent_text_report:
  "buildSimilarityReport None h ps =
     Inr \<lparr>score = 0, category = Cat_none, matches = [],
          contentHash = h, normalizedText = None, extractedText = None\<rparr>"
  by (simp add: buildSimilarityReport_def truthy_def)

text \<open>
  C10: on every path, the fields \<open>contentHash\<close> and \<open>normalizedText\<close> of the report
  returned are the arguments of the call.
\<close>

theorem report_passes_inputs_through:
  assumes "buildSimilarityReport t h ps = Inr r"
  shows "SimilarityReport.contentHash r = h \<and> SimilarityReport.normalizedText r = t"
proof (cases "truthy t")
  case False
  from report_short [OF this, of h ps] assms show ?thesis by auto
next
  case True
  from report_shape [OF assms True] show ?thesis by blast
qed

text \<open>
  The pass-through of C10 on the report of the two peers.
\<close>

theorem report_passes_inputs_through_witness:
  "\<exists>r. buildSimilarityReport (Some ''a b c d'') (Some ''9f86d081'')
     [\<lparr>ident = Oid (ObjectId ''65a1b2c3d4e5f60718293a4b''),
       normalizedText = Some ''a b x y'', contentHash = None\<rparr>,
      \<lparr>ident = Oid (ObjectId ''65a1b2c3d4e5f60718293a4c''),
       normalizedText = Some ''a b c d'', contentHash = Some ''9f86d081''\<rparr>] = Inr r
    \<and> SimilarityReport.contentHash r = Some ''9f86d081''
    \<and> SimilarityReport.normalizedText r = Some ''a b c d''"
  using report_passes_inputs_through [OF two_peers_report] two_peers_report by simp

section \<open>Report builder: the invariants of a report\<close>

text \<open>
  C2: in every report that \<open>buildSimilarityReport\<close> returns, the matches are sorted
  by descending score, the report's score is the greatest score among the matches (0
  when there is none), which is the score of the first match, and the category is
  \<open>bucketScore\<close> of the report's score.
\<close>

theorem report_invariants:
  assumes "buildSimilarityReport t h ps = Inr r"
  shows "sorted_wrt (\<lambda>a b. MatchResult.score a \<ge> MatchResult.score b) (matches r)
     \<and> SimilarityReport.score r
         = (if matches r = [] then 0 else Max (MatchResult.score ` set (matches r)))
     \<and> SimilarityReport.score r
         = (case matches r of [] \<Rightarrow> 0 | m # _ \<Rightarrow> MatchResult.score m)
     \<and> category r = bucketScore (SimilarityReport.score r)"
proof (cases "truthy t")
  case False
  from report_short [OF this, of h ps] assms
  have "r = \<lparr>score = 0, category = Cat_none, matches = [],
          contentHash = h, normalizedText = t, extractedText = None\<rparr>" by simp
  then show ?thesis by (simp add: bucketScore_def CATEGORY_THRESHOLDS_def)
next
  case True
  from report_shape [OF assms True] obtain pushed where
    m: "matches r = sortMatches pushed"
    and s: "SimilarityReport.score r = (case sortMatches pushed of [] \<Rightarrow> 0 | m # _ \<Rightarrow> MatchResult.score m)"
    and c: "category r = bucketScore (SimilarityReport.score r)"
    by blast
  have srt: "sorted_wrt (\<lambda>a b. MatchResult.score b \<le> MatchResult.score a) (matches r)"
    unfolding m by (rule sortMatches_sorted)
  have top: "SimilarityReport.score r = (case matches r of [] \<Rightarrow> 0 | m # _ \<Rightarrow> MatchResult.score m)"
    using s m by simp
  have mx: "SimilarityReport.score r
         = (if matches r = [] then 0 else Max (MatchResult.score ` set (matches r)))"
  proof (cases "matches r")
    case Nil
    with top show ?thesis by simp
  next
    case (Cons x xs)
    with srt have "Max (MatchResult.score ` set (x # xs)) = MatchResult.score x"
      by (intro sorted_desc_hd_Max) simp
    with Cons top show ?thesis by simp
  qed
  from srt top mx c show ?thesis by simp
qed

text \<open>
  The invariants of C2 on the report of the two peers.
\<close>

theorem report_invariants_witness:
  "buildSimilarityReport (Some ''a b c d'') (Some ''9f86d081'')
     [\<lparr>ident = Oid (ObjectId ''65a1b2c3d4e5f60718293a4b''),
       normalizedText = Some ''a b x y'', contentHash = None\<rparr>,
      \<lparr>ident = Oid (ObjectId ''65a1b2c3d4e5f60718293a4c''),
       normalizedText = Some ''a b c d'', contentHash = Some ''9f86d081''\<rparr>]
   = Inr \<lparr>score = 1, category = Cat_high,
          matches = [\<lparr>submissionId = ObjectId ''65a1b2c3d4e5f60718293a4c'', score = 1\<rparr>,
                     \<lparr>submissionId = ObjectId ''65a1b2c3d4e5f60718293a4b'', score = 1 / 2\<rparr>],
          contentHash = Some ''9f86d081'', normalizedText = Some ''a b c d'',
          extractedText = None\<rparr>
   \<and> Max {1, 1 / 2 :: real} = 1 \<and> bucketScore 1 = Cat_high"
  using report_invariants [OF two_peers_report] two_peers_report by simp

section \<open>Report builder: the hash shortcut\<close>

text \<open>
  C3: when the submission's hash and a peer's hash are present (non-empty strings) and
  equal, the peer's score is 1, whatever the vector and the peer's text. So a
  submission against one peer with the same normalized text, both hashed by
  \<open>createContentHash\<close>, gives the report with score 1, category \<open>high\<close> and the one
  match with score 1.
\<close>

theorem hash_shortcut:
  "(h \<noteq> [] \<longrightarrow> ExistingSubmission.contentHash peer = Some h
       \<longrightarrow> peerScore v (Some h) peer = 1)
   \<and> (t \<noteq> [] \<longrightarrow> sha256 t \<noteq> [] \<longrightarrow> toObjectId pid = Inr oid \<longrightarrow>
        buildSimilarityReport (Some t) (createContentHash sha256 (Some t))
          [\<lparr>ident = pid, normalizedText = Some t,
            contentHash = createContentHash sha256 (Some t)\<rparr>]
        = Inr \<lparr>score = 1, category = Cat_high,
               matches = [\<lparr>submissionId = oid, score = 1\<rparr>],
               contentHash = Some (sha256 t), normalizedText = Some t,
               extractedText = None\<rparr>)"
proof -
  have one: "toFixed4 1 = 1" by (simp add: toFixed4_def)
  have hi: "bucketScore 1 = Cat_high" by (simp add: bucketScore_def CATEGORY_THRESHOLDS_def)
  show ?thesis
    by (simp add: peerScore_def truthy_def buildSimilarityReport_def createContentHash_def
        Let_def one hi sortMatches_def)
qed

text \<open>
  The shortcut for the text \<open>"The quick brown fox"\<close>, normalized, against one peer with
  the same text; the digest is a stand-in with a non-empty value.
\<close>

theorem hash_shortcut_witness:
  "normalizeText (Some ''The quick brown fox'') = Some ''the quick brown fox''
   \<and> toObjectId (Str ''65A1B2C3D4E5F60718293A4B'') = Inr (ObjectId ''65a1b2c3d4e5f60718293a4b'')
   \<and> peerScore [] (Some ''9f86d081'')
        \<lparr>ident = Str ''x'', normalizedText = None, contentHash = Some ''9f86d081''\<rparr> = 1
   \<and> buildSimilarityReport (Some ''the quick brown fox'')
        (createContentHash (\<lambda>s. ''9f86d081'') (Some ''the quick brown fox''))
        [\<lparr>ident = Str ''65A1B2C3D4E5F60718293A4B'',
          normalizedText = Some ''the quick brown fox'',
          contentHash = createContentHash (\<lambda>s. ''9f86d081'') (Some ''the quick brown fox'')\<rparr>]
      = Inr \<lparr>score = 1, category = Cat_high,
             matches = [\<lparr>submissionId = ObjectId ''65a1b2c3d4e5f60718293a4b'', score = 1\<rparr>],
             contentHash = Some ''9f86d081'', normalizedText = Some ''the quick brown fox'',
             extractedText = None\<rparr>"
  using hash_shortcut [of "''9f86d081''"
      "\<lparr>ident = Str ''x'', normalizedText = None, contentHash = Some ''9f86d081''\<rparr>"
      "[]" "''the quick brown fox''" "\<lambda>s. ''9f86d081''"
      "Str ''65A1B2C3D4E5F60718293A4B''" "ObjectId ''65a1b2c3d4e5f60718293a4b''"]
    normalize_fox oid_ex
  by simp

section \<open>Report builder: the entries of \<open>matches\<close>\<close>

text \<open>
  Against C5 as stated: the submission \<open>y\<close> (150 times) \<open>x\<close> and the peer \<open>z\<close>
  (150 times) \<open>x\<close> share one token; the cosine is \<open>1/22501\<close>, above 0, and the match
  is recorded with the rounded score 0.
\<close>

theorem recorded_score_zero:
  "buildSimilarityReport (Some (concat (replicate 150 ''y '') @ ''x'')) None
     [\<lparr>ident = Oid (ObjectId ''65a1b2c3d4e5f60718293a4b''),
       normalizedText = Some (concat (replicate 150 ''z '') @ ''x''),
       contentHash = None\<rparr>]
   = Inr \<lparr>score = 0, category = Cat_none,
          matches = [\<lparr>submissionId = ObjectId ''65a1b2c3d4e5f60718293a4b'', score = 0\<rparr>],
          contentHash = None,
          normalizedText = Some (concat (replicate 150 ''y '') @ ''x''),
          extractedText = None\<rparr>"
proof -
  have n: "(150 :: nat) = Suc 149" by simp
  have va: "buildVector (Some (concat (replicate 150 ''y '') @ ''x'')) = [(''y'', 150), (''x'', 1)]"
    unfolding n using buildVector_repeated [of "CHR ''y''" "CHR ''x''" 149] by simp
  have vb: "buildVector (Some (concat (replicate 150 ''z '') @ ''x'')) = [(''z'', 150), (''x'', 1)]"
    unfolding n using buildVector_repeated [of "CHR ''z''" "CHR ''x''" 149] by simp
  have ne: "concat (replicate 150 ''y '') @ ''x'' \<noteq> []" by simp
  show ?thesis
    using ne
    by (simp add: buildSimilarityReport_def truthy_def peerScore_def va vb tiny_cosine
        tiny_rounds_to_zero toObjectId_def sortMatches_def bucketScore_def
        CATEGORY_THRESHOLDS_def Let_def)
qed

text \<open>
  C5, as the code has it: in every report returned, every match has a score in
  \<open>[0, 1]\<close> that is a multiple of \<open>1/10000\<close>, the rounded score of a peer whose
  score before rounding is above 0 (the rounded score itself may be 0); and there is
  at most one match for each peer of the list.
\<close>

theorem match_entries:
  assumes "buildSimilarityReport t h ps = Inr r"
  shows "(\<forall>m \<in> set (matches r).
            0 \<le> MatchResult.score m \<and> MatchResult.score m \<le> 1
            \<and> (\<exists>n :: int. MatchResult.score m = real_of_int n / 10000)
            \<and> (\<exists>p \<in> set ps. 0 < peerScore (buildVector t) h p
                  \<and> toObjectId (ident p) = Inr (submissionId m)
                  \<and> MatchResult.score m = toFixed4 (peerScore (buildVector t) h p)))
         \<and> image_mset (\<lambda>m. Inr (submissionId m)) (mset (matches r))
             \<subseteq># image_mset (\<lambda>p. toObjectId (ident p)) (mset ps)"
proof (cases "truthy t")
  case False
  from report_short [OF this, of h ps] assms
  have "matches r = []" by auto
  then show ?thesis by simp
next
  case True
  from report_shape [OF assms True] obtain pushed where
    sp: "scorePeers (buildVector t) h ps [] = Inr pushed"
    and m: "matches r = sortMatches pushed"
    by blast
  have "\<forall>m \<in> set pushed.
            0 \<le> MatchResult.score m \<and> MatchResult.score m \<le> 1
            \<and> (\<exists>n :: int. MatchResult.score m = real_of_int n / 10000)
            \<and> (\<exists>p \<in> set ps. 0 < peerScore (buildVector t) h p
                  \<and> toObjectId (ident p) = Inr (submissionId m)
                  \<and> MatchResult.score m = toFixed4 (peerScore (buildVector t) h p))"
  proof
    fix m assume "m \<in> set pushed"
    from scorePeers_entries [OF sp this] obtain p where
      p: "p \<in> set ps" "0 < peerScore (buildVector t) h p"
         "toObjectId (ident p) = Inr (submissionId m)"
         "MatchResult.score m = toFixed4 (peerScore (buildVector t) h p)"
      by auto
    have "0 \<le> toFixed4 (peerScore (buildVector t) h p) \<and> toFixed4 (peerScore (buildVector t) h p) \<le> 1"
      using peerScore_range [of "buildVector t" h p] by (intro toFixed4_range) auto
    moreover have "\<exists>n :: int. toFixed4 (peerScore (buildVector t) h p) = real_of_int n / 10000"
      by (rule toFixed4_grid)
    ultimately show "0 \<le> MatchResult.score m \<and> MatchResult.score m \<le> 1
            \<and> (\<exists>n :: int. MatchResult.score m = real_of_int n / 10000)
            \<and> (\<exists>p \<in> set ps. 0 < peerScore (buildVector t) h p
                  \<and> toObjectId (ident p) = Inr (submissionId m)
                  \<and> MatchResult.score m = toFixed4 (peerScore (buildVector t) h p))"
      using p by auto
  qed
  moreover have "image_mset (\<lambda>m. Inr (submissionId m)) (mset pushed)
             \<subseteq># image_mset (\<lambda>p. toObjectId (ident p)) (mset ps)"
    using scorePeers_mset [OF sp] by simp
  ultimately show ?thesis
    unfolding m by (simp add: sortMatches_set sortMatches_mset)
qed

text \<open>
  The bounds of C5 on the report of the two peers.
\<close>

theorem match_entries_witness:
  "\<exists>r. buildSimilarityReport (Some ''a b c d'') (Some ''9f86d081'')
     [\<lparr>ident = Oid (ObjectId ''65a1b2c3d4e5f60718293a4b''),
       normalizedText = Some ''a b x y'', contentHash = None\<rparr>,
      \<lparr>ident = Oid (ObjectId ''65a1b2c3d4e5f60718293a4c''),
       normalizedText = Some ''a b c d'', contentHash = Some ''9f86d081''\<rparr>] = Inr r
    \<and> map MatchResult.score (matches r) = [1, 1 / 2]
    \<and> (\<forall>m \<in> set (matches r). 0 \<le> MatchResult.score m \<and> MatchResult.score m \<le> 1
          \<and> (\<exists>n :: int. MatchResult.score m = real_of_int n / 10000))"
  using match_entries [OF two_peers_report] two_peers_report by simp

section \<open>Report builder: when a report is returned\<close>

text \<open>
  Against C6 as stated: a peer with a positive score whose identifier is the string
  \<open>"peer-1"\<close> makes \<open>buildSimilarityReport\<close> raise the error of the \<open>ObjectId\<close>
  constructor.
\<close>

theorem malformed_identifier_raises:
  "buildSimilarityReport (Some ''the quick brown fox'') (Some ''9f86d081'')
     [\<lparr>ident = Str ''peer-1'', normalizedText = Some ''the quick brown fox'',
       contentHash = Some ''9f86d081''\<rparr>]
   = Inl BSONError"
  by (simp add: buildSimilarityReport_def truthy_def peerScore_def bad_id)

text \<open>
  C6, as the code has it: \<open>buildSimilarityReport\<close> returns a report exactly when the
  normalized text is absent or empty, or every peer whose score is above 0 has an
  identifier that \<open>toObjectId\<close> converts: an \<open>ObjectId\<close>, or a string of 24
  hexadecimal digits. Absent text, an absent hash, an empty list of peers and peers
  with neither hash nor text (whatever their identifier) are among these inputs.
\<close>

theorem report_returned_iff:
  "((\<exists>r. buildSimilarityReport t h ps = Inr r)
     \<longleftrightarrow> (truthy t \<longrightarrow>
           (\<forall>p \<in> set ps. 0 < peerScore (buildVector t) h p
               \<longrightarrow> (\<exists>oid. toObjectId (ident p) = Inr oid))))
   \<and> ((\<exists>oid. toObjectId pid = Inr oid)
     \<longleftrightarrow> (case pid of Oid oid \<Rightarrow> True
                    | Str s \<Rightarrow> length s = 24 \<and> list_all isHexDigit s))"
proof -
  have conv: "\<And>q. (\<exists>oid. toObjectId q = Inr oid) \<longleftrightarrow> toObjectId q \<noteq> Inl BSONError"
  proof -
    fix q show "(\<exists>oid. toObjectId q = Inr oid) \<longleftrightarrow> toObjectId q \<noteq> Inl BSONError"
    proof (cases "toObjectId q")
      case (Inl e)
      then show ?thesis by (cases e) simp
    next
      case (Inr oid)
      then show ?thesis by simp
    qed
  qed
  have first: "(\<exists>r. buildSimilarityReport t h ps = Inr r)
     \<longleftrightarrow> (truthy t \<longrightarrow>
           (\<forall>p \<in> set ps. 0 < peerScore (buildVector t) h p
               \<longrightarrow> (\<exists>oid. toObjectId (ident p) = Inr oid)))"
  proof (cases "truthy t")
    case False
    then show ?thesis by (simp add: report_short)
  next
    case True
    have "(\<exists>r. buildSimilarityReport t h ps = Inr r)
          \<longleftrightarrow> (\<exists>ms. scorePeers (buildVector t) h ps [] = Inr ms)"
      using True by (auto simp: buildSimilarityReport_def Let_def split: sum.splits)
    with True show ?thesis by (simp add: scorePeers_total conv)
  qed
  have second: "(\<exists>oid. toObjectId pid = Inr oid)
     \<longleftrightarrow> (case pid of Oid oid \<Rightarrow> True
                    | Str s \<Rightarrow> length s = 24 \<and> list_all isHexDigit s)"
    by (cases pid) (simp_all add: toObjectId_def newObjectId_def)
  from first second show ?thesis by (rule conjI)
qed

text \<open>
  A report is returned for a peer with neither hash nor text and the identifier
  \<open>"peer-1"\<close>, next to a peer with a well-formed identifier.
\<close>

theorem report_returned_iff_witness:
  "truthy (Some ''a b c d'')
   \<and> peerScore (buildVector (Some ''a b c d'')) None
        \<lparr>ident = Str ''peer-1'', normalizedText = None, contentHash = None\<rparr> = 0
   \<and> toObjectId (Str ''65A1B2C3D4E5F60718293A4B'') = Inr (ObjectId ''65a1b2c3d4e5f60718293a4b'')
   \<and> (\<exists>r. buildSimilarityReport (Some ''a b c d'') None
         [\<lparr>ident = Str ''peer-1'', normalizedText = None, contentHash = None\<rparr>,
          \<lparr>ident = Str ''65A1B2C3D4E5F60718293A4B'',
            normalizedText = Some ''a b x y'', contentHash = None\<rparr>] = Inr r)"
  using report_returned_iff [of "Some ''a b c d''" None
      "[\<lparr>ident = Str ''peer-1'', normalizedText = None, contentHash = None\<rparr>,
        \<lparr>ident = Str ''65A1B2C3D4E5F60718293A4B'',
          normalizedText = Some ''a b x y'', contentHash = None\<rparr>]"
      "Oid (ObjectId [])"]
    degenerate_peers_scores oid_ex
  by (simp add: truthy_def)

end
